theory Spec2Isabelle
  imports Main "HOL-Library.Word"
begin

unbundle bit_operations_syntax

section \<open>Data model of src/utils/blobUtils.ts\<close>

text \<open>
  A \<open>Uint8Array\<close> is a list of 8-bit words. A thrown JavaScript exception is the left
  summand of a sum type: \<open>Error msg\<close> for \<open>throw new Error(msg)\<close>, \<open>RangeError msg\<close>
  for the engine's own range errors (a negative \<open>BigInt\<close> exponent),
  \<open>MalformedSignature\<close> for the signature normalizer's failure.
\<close>

type_synonym byte = "8 word"
type_synonym bytes = "byte list"

datatype error = Error string | RangeError string | MalformedSignature

text \<open>
  One entry of \<open>abi.configurables\<close>: its name and the byte offset at which the constant
  begins. The offset is a JavaScript number holding an integer; it is kept as \<open>int\<close>, so
  that what \<open>slice\<close> does with a negative or too large offset is part of the model.
\<close>

record configurable =
  name :: string
  offset :: int

text \<open>
  The ABI object (typed \<open>any\<close> in the source). Only its \<open>configurables\<close> property is
  read; \<open>None\<close> is the absent (undefined) property.
\<close>

record abi =
  abi_configurables :: "configurable list option"

record LoaderComponents =
  instructions :: bytes
  blobId :: bytes
  sectionLength :: int
  configurables :: bytes

text \<open>The object returned by \<open>splitPredicateBytecode\<close>.\<close>

record sections =
  codeSection :: bytes
  configurablesSection :: bytes

definition LOADER_INSTRUCTIONS_LENGTH :: nat where
  "LOADER_INSTRUCTIONS_LENGTH = 48"

definition BLOB_ID_LENGTH :: nat where
  "BLOB_ID_LENGTH = 32"

definition SECTION_LENGTH_SIZE :: nat where
  "SECTION_LENGTH_SIZE = 8"

section \<open>JavaScript primitives used by the module\<close>

text \<open>
  \<open>TypedArray.prototype.slice(start, end)\<close>: a negative index counts from the end and is
  clamped at 0, a non-negative one is clamped at the length; an absent \<open>end\<close> is the
  length; the result is empty when the final index does not exceed the first.
\<close>

definition relativeIndex :: "int \<Rightarrow> nat \<Rightarrow> nat" where
  "relativeIndex i len = (if i < 0 then nat (max (int len + i) 0) else min (nat i) len)"

definition slice_list :: "'a list \<Rightarrow> int \<Rightarrow> int option \<Rightarrow> 'a list" where
  "slice_list xs start stop =
     (let len = length xs;
          k = relativeIndex start len;
          final = (case stop of None \<Rightarrow> len | Some e \<Rightarrow> relativeIndex e len)
      in take (final - k) (drop k xs))"

text \<open>
  \<open>Math.min(first, ...rest)\<close> on integers: walk the arguments and keep the smaller.
  The only call site has at least one argument.
\<close>

definition Math_min :: "int \<Rightarrow> int list \<Rightarrow> int" where
  "Math_min first rest = fold (\<lambda>x lowest. if x < lowest then x else lowest) rest first"

text \<open>\<open>base ** exponent\<close> on \<open>BigInt\<close>: a negative exponent throws a \<open>RangeError\<close>.\<close>

definition bigint_pow :: "int \<Rightarrow> int \<Rightarrow> error + int" where
  "bigint_pow base exponent =
     (if exponent < 0 then Inl (RangeError ''Exponent must be non-negative'')
      else Inr (base ^ nat exponent))"

text \<open>
  \<open>array.reduce(callback, initial)\<close>, the callback receiving the accumulator, the element
  and its index; an exception thrown by the callback ends the walk.
\<close>

fun reduce_from :: "('b \<Rightarrow> 'a \<Rightarrow> nat \<Rightarrow> error + 'b) \<Rightarrow> nat \<Rightarrow> 'a list \<Rightarrow> 'b \<Rightarrow> error + 'b" where
  "reduce_from f i [] acc = Inr acc"
| "reduce_from f i (x # xs) acc =
     (case f acc x i of Inl e \<Rightarrow> Inl e | Inr acc' \<Rightarrow> reduce_from f (Suc i) xs acc')"

definition reduce :: "('b \<Rightarrow> 'a \<Rightarrow> nat \<Rightarrow> error + 'b) \<Rightarrow> 'a list \<Rightarrow> 'b \<Rightarrow> error + 'b" where
  "reduce f xs initial = reduce_from f 0 xs initial"

text \<open>
  \<open>n.toString(16)\<close> for a non-negative integer (lower-case digits, no leading zero) and
  \<open>s.padStart(width, c)\<close> for a one-character filler.
\<close>

definition hexDigit :: "nat \<Rightarrow> char" where
  "hexDigit d = ''0123456789abcdef'' ! d"

fun toString16 :: "nat \<Rightarrow> string" where
  "toString16 n = (if n < 16 then [hexDigit n] else toString16 (n div 16) @ [hexDigit (n mod 16)])"

declare toString16.simps [simp del]

definition padStart :: "string \<Rightarrow> nat \<Rightarrow> char \<Rightarrow> string" where
  "padStart s width c = replicate (width - length s) c @ s"

text \<open>
  The arrow function \<open>b => b.toString(16).padStart(2, '0')\<close>, written out twice in the
  source (in \<open>verifyLoaderBlobId\<close> and in \<open>bytesToHex\<close>).
\<close>

definition hexByte :: "byte \<Rightarrow> string" where
  "hexByte b = padStart (toString16 (unat b)) 2 CHR ''0''"

section \<open>The functions of blobUtils.ts\<close>

definition getConfigurablesSectionOffset :: "abi \<Rightarrow> error + int" where
  "getConfigurablesSectionOffset a =
     (case abi_configurables a of
        None \<Rightarrow> Inl (Error ''No configurables found in ABI'')
      | Some [] \<Rightarrow> Inl (Error ''No configurables found in ABI'')
      | Some (c # cs) \<Rightarrow> Inr (Math_min (offset c) (map offset cs)))"

definition splitPredicateBytecode :: "bytes \<Rightarrow> abi \<Rightarrow> error + sections" where
  "splitPredicateBytecode bytecode a =
     (case getConfigurablesSectionOffset a of
        Inl e \<Rightarrow> Inl e
      | Inr configurablesOffset \<Rightarrow>
          Inr \<lparr>codeSection = slice_list bytecode 0 (Some configurablesOffset),
               configurablesSection = slice_list bytecode configurablesOffset None\<rparr>)"

text \<open>
  \<open>sha256\<close> is imported from the SDK: a function from bytes to the digest's hex string.
  It is a parameter of every function that calls it.
\<close>

definition calculateBlobId :: "(bytes \<Rightarrow> string) \<Rightarrow> bytes \<Rightarrow> abi \<Rightarrow> error + string" where
  "calculateBlobId sha256 bytecode a =
     (case splitPredicateBytecode bytecode a of
        Inl e \<Rightarrow> Inl e
      | Inr s \<Rightarrow> Inr (sha256 (codeSection s)))"

definition parseLoaderStructure :: "bytes \<Rightarrow> error + LoaderComponents option" where
  "parseLoaderStructure loaderBytecode =
     (let minLength = LOADER_INSTRUCTIONS_LENGTH + BLOB_ID_LENGTH + SECTION_LENGTH_SIZE in
      if length loaderBytecode < minLength then Inr None
      else
        let offset0 = 0;
            instructions' = slice_list loaderBytecode (int offset0)
                              (Some (int (offset0 + LOADER_INSTRUCTIONS_LENGTH)));
            offset1 = offset0 + LOADER_INSTRUCTIONS_LENGTH;
            blobId' = slice_list loaderBytecode (int offset1) (Some (int (offset1 + BLOB_ID_LENGTH)));
            offset2 = offset1 + BLOB_ID_LENGTH;
            sectionLengthBytes = slice_list loaderBytecode (int offset2)
                                   (Some (int (offset2 + SECTION_LENGTH_SIZE)));
            offset3 = offset2 + SECTION_LENGTH_SIZE
        in case reduce (\<lambda>acc b i. case bigint_pow 256 (7 - int i) of
                                      Inl e \<Rightarrow> Inl e
                                    | Inr p \<Rightarrow> Inr (acc + uint b * p))
                  sectionLengthBytes 0 of
             Inl e \<Rightarrow> Inl e
           | Inr sectionLength' \<Rightarrow>
               Inr (Some \<lparr>instructions = instructions',
                          blobId = blobId',
                          sectionLength = sectionLength',
                          configurables = slice_list loaderBytecode (int offset3) None\<rparr>))"

definition bytesToHex :: "bytes \<Rightarrow> string" where
  "bytesToHex bs = ''0x'' @ concat (map hexByte bs)"

definition verifyLoaderBlobId :: "(bytes \<Rightarrow> string) \<Rightarrow> bytes \<Rightarrow> abi \<Rightarrow> bytes \<Rightarrow> error + bool" where
  "verifyLoaderBlobId sha256 fullBytecode fullAbi loaderBytecode =
     (case calculateBlobId sha256 fullBytecode fullAbi of
        Inl e \<Rightarrow> Inl e
      | Inr expectedBlobId \<Rightarrow>
          (case parseLoaderStructure loaderBytecode of
             Inl e \<Rightarrow> Inl e
           | Inr None \<Rightarrow> Inr False
           | Inr (Some loaderComponents) \<Rightarrow>
               (let embeddedBlobId =
                      ''0x'' @ concat (map hexByte (blobId loaderComponents))
                in Inr (embeddedBlobId = expectedBlobId))))"

section \<open>Reference reading of the length field\<close>

text \<open>
  The specification describes \<open>sectionLength\<close> as an unsigned 64-bit big-endian integer
  and asks for a direct fixed-width read in place of the repeated multiplication. This is
  that read, written after the specification's words and independently of the source's
  \<open>reduce\<close>: the eight bytes from \<open>off\<close> on, concatenated most significant first into one
  64-bit word.
\<close>

definition readBigUInt64BE :: "bytes \<Rightarrow> nat \<Rightarrow> 64 word" where
  "readBigUInt64BE bs off = word_rcat (take 8 (drop off bs))"

section \<open>Signature normalizer\<close>

text \<open>
  Modelled from the spec: \<open>toCompact\<close> (the tests import it as \<open>toCompactSignature\<close> from
  \<open>src/utils/signatureUtils\<close>, a file that is not among the sources). Section 4.4 of the
  specification: take \<open>r\<close> (bytes 0-31), \<open>s\<close> (bytes 32-63) and \<open>v\<close> (byte 64); the
  parity is \<open>v mod 2\<close> after subtracting 27 when \<open>v \<ge> 27\<close>; \<open>s'\<close> is \<open>s\<close> with its most
  significant bit set to the parity and every other bit kept; the result is \<open>r\<close> followed
  by \<open>s'\<close>. An input that is not exactly 65 bytes long fails with \<open>MalformedSignature\<close>.
\<close>

definition normalizeParity :: "byte \<Rightarrow> bool" where
  "normalizeParity v = ((if 27 \<le> unat v then unat v - 27 else unat v) mod 2 = 1)"

definition withTopBit :: "byte \<Rightarrow> bool \<Rightarrow> byte" where
  "withTopBit b parity = (if parity then b OR 0x80 else b AND 0x7F)"

definition toCompact :: "bytes \<Rightarrow> error + bytes" where
  "toCompact signature =
     (if length signature \<noteq> 65 then Inl MalformedSignature
      else
        let r = take 32 signature;
            s = take 32 (drop 32 signature);
            v = signature ! 64;
            parity = normalizeParity v;
            s' = withTopBit (hd s) parity # tl s
        in Inr (r @ s'))"

section \<open>Facts about the primitives\<close>

lemma slice_list_nat_nat: "slice_list xs (int a) (Some (int b)) = take (b - a) (drop a xs)"
  by (auto simp: slice_list_def relativeIndex_def Let_def min_def)

lemma slice_list_nat_end: "slice_list xs (int a) None = drop a xs"
  by (auto simp: slice_list_def relativeIndex_def Let_def min_def)

lemma slice_list_prefix: "0 \<le> off \<Longrightarrow> slice_list xs 0 (Some off) = take (nat off) xs"
  using slice_list_nat_nat [of xs 0 "nat off"] by simp

lemma slice_list_suffix: "0 \<le> off \<Longrightarrow> slice_list xs off None = drop (nat off) xs"
  using slice_list_nat_end [of xs "nat off"] by simp

lemma slice_list_split: "slice_list xs 0 (Some off) @ slice_list xs off None = xs"
  by (auto simp: slice_list_def relativeIndex_def Let_def min_def max_def)

lemma Math_min_eq_Min: "Math_min x xs = Min (set (x # xs))"
proof (induction xs arbitrary: x)
  case Nil
  show ?case by (simp add: Math_min_def)
next
  case (Cons y ys)
  have "Math_min x (y # ys) = Math_min (min y x) ys"
    by (simp add: Math_min_def min_def)
  also have "\<dots> = Min (set (min y x # ys))"
    by (rule Cons.IH)
  also have "\<dots> = Min (set (x # y # ys))"
    by (cases "ys = []") (auto simp: min.commute min.left_commute min.assoc)
  finally show ?case .
qed

lemma reduce_from_big_endian:
  "i + length xs \<le> 8 \<Longrightarrow>
   reduce_from (\<lambda>acc b i. case bigint_pow 256 (7 - int i) of
                              Inl e \<Rightarrow> Inl e
                            | Inr p \<Rightarrow> Inr (acc + uint (b::byte) * p)) i xs acc
   = Inr (acc + (\<Sum>j<length xs. uint (xs ! j) * 256 ^ (7 - (i + j))))"
proof (induction xs arbitrary: i acc)
  case Nil
  show ?case by simp
next
  case (Cons x xs)
  have i7: "i \<le> 7" using Cons.prems by simp
  have p: "bigint_pow 256 (7 - int i) = Inr (256 ^ (7 - i))"
    using i7 by (simp add: bigint_pow_def nat_diff_distrib')
  have "Suc i + length xs \<le> 8" using Cons.prems by simp
  note IH = Cons.IH [OF this]
  show ?case
    by (simp add: p IH sum.lessThan_Suc_shift del: sum.lessThan_Suc)
qed

lemma horner_bytes_bounds:
  "0 \<le> horner_sum uint 256 (xs::bytes) \<and> horner_sum uint 256 xs < 256 ^ length xs"
proof (induction xs)
  case Nil
  show ?case by simp
next
  case (Cons x xs)
  have "uint x < 256" using uint_bounded [of x] by simp
  moreover have "0 \<le> uint x" by simp
  moreover have "horner_sum uint 256 xs + 1 \<le> 256 ^ length xs" using Cons.IH by simp
  then have "256 * horner_sum uint 256 xs + 256 \<le> 256 * 256 ^ length xs" by simp
  ultimately show ?case using Cons.IH by simp
qed

lemma big_endian_sum_horner:
  fixes xs :: bytes
  shows "(\<Sum>j<length xs. uint (xs ! j) * 256 ^ (length xs - Suc j)) = horner_sum uint 256 (rev xs)"
proof -
  let ?n = "length xs"
  let ?g = "\<lambda>i. uint (rev xs ! i) * 256 ^ i"
  have "horner_sum uint 256 (rev xs) = (\<Sum>i<?n. ?g i)"
    by (simp add: horner_sum_eq_sum atLeast0LessThan)
  also have "\<dots> = (\<Sum>j<?n. ?g (?n - Suc j))"
    by (rule sum.nat_diff_reindex [symmetric])
  also have "\<dots> = (\<Sum>j<?n. uint (xs ! j) * 256 ^ (?n - Suc j))"
    by (rule sum.cong) (simp_all add: rev_nth)
  finally show ?thesis by simp
qed

lemma uint_word_rcat_8:
  fixes xs :: bytes
  assumes "length xs = 8"
  shows "uint (word_rcat xs :: 64 word) = (\<Sum>j<8. uint (xs ! j) * 256 ^ (7 - j))"
proof -
  have b: "0 \<le> horner_sum uint 256 (rev xs)" "horner_sum uint 256 (rev xs) < 2 ^ 64"
    using horner_bytes_bounds [of "rev xs"] assms by simp_all
  have "uint (word_rcat xs :: 64 word) = take_bit 64 (horner_sum uint 256 (rev xs))"
    by (simp add: word_rcat_def uint_word_of_int_eq)
  also have "\<dots> = horner_sum uint 256 (rev xs)"
    using b by (simp add: take_bit_int_eq_self)
  also have "\<dots> = (\<Sum>j<8. uint (xs ! j) * 256 ^ (7 - j))"
    using big_endian_sum_horner [of xs] assms by simp
  finally show ?thesis .
qed

subsection \<open>Hex encoding is injective\<close>

lemma hexDigit_inj: "a < 16 \<Longrightarrow> b < 16 \<Longrightarrow> hexDigit a = hexDigit b \<Longrightarrow> a = b"
proof -
  assume a: "a < 16" and b: "b < 16" and e: "hexDigit a = hexDigit b"
  have d: "distinct ''0123456789abcdef''" by simp
  have l: "length ''0123456789abcdef'' = 16" by simp
  show "a = b"
    using nth_eq_iff_index_eq [OF d, of a b] a b e unfolding hexDigit_def l by simp
qed

lemma hexDigit_0: "hexDigit 0 = CHR ''0''"
  by (simp add: hexDigit_def)

lemma padStart_toString16:
  "n < 256 \<Longrightarrow> padStart (toString16 n) 2 CHR ''0'' = [hexDigit (n div 16), hexDigit (n mod 16)]"
proof (cases "n < 16")
  case True
  then show ?thesis
    by (simp add: toString16.simps [of n] padStart_def hexDigit_0 numeral_2_eq_2)
next
  case False
  assume "n < 256"
  then have "n div 16 < 16" by simp
  then have "toString16 (n div 16) = [hexDigit (n div 16)]"
    by (simp add: toString16.simps [of "n div 16"])
  then show ?thesis using False by (simp add: toString16.simps [of n] padStart_def)
qed

lemma hexByte_digits: "hexByte b = [hexDigit (unat b div 16), hexDigit (unat b mod 16)]"
proof -
  have "unat b < 256" using unsigned_less [of b, where ?'a = nat] by simp
  then show ?thesis unfolding hexByte_def by (rule padStart_toString16)
qed

lemma hexByte_inj: "hexByte a = hexByte b \<Longrightarrow> a = b"
proof -
  assume "hexByte a = hexByte b"
  then have h: "hexDigit (unat a div 16) = hexDigit (unat b div 16)"
               "hexDigit (unat a mod 16) = hexDigit (unat b mod 16)"
    by (simp_all add: hexByte_digits)
  have la: "unat a < 256" using unsigned_less [of a, where ?'a = nat] by simp
  have lb: "unat b < 256" using unsigned_less [of b, where ?'a = nat] by simp
  have "unat a div 16 = unat b div 16" using h(1) la lb by (intro hexDigit_inj) simp_all
  moreover have "unat a mod 16 = unat b mod 16" using h(2) by (intro hexDigit_inj) simp_all
  ultimately have "unat a = unat b" by (metis div_mult_mod_eq)
  then show "a = b" by (simp add: word_unat_eq_iff)
qed

lemma concat_hexByte_inj: "concat (map hexByte xs) = concat (map hexByte ys) \<Longrightarrow> xs = ys"
proof (induction xs arbitrary: ys)
  case Nil
  then show ?case by (cases ys) (simp_all add: hexByte_digits)
next
  case (Cons x xs)
  show ?case
  proof (cases ys)
    case Nil
    with Cons.prems show ?thesis by (simp add: hexByte_digits)
  next
    case (Cons y ys')
    from Cons.prems Cons
    have "hexByte x @ concat (map hexByte xs) = hexByte y @ concat (map hexByte ys')" by simp
    moreover have "length (hexByte x) = length (hexByte y)" by (simp add: hexByte_digits)
    ultimately have "hexByte x = hexByte y" "concat (map hexByte xs) = concat (map hexByte ys')"
      by simp_all
    then show ?thesis using Cons.IH hexByte_inj Cons by simp
  qed
qed

lemma bytesToHex_inj: "bytesToHex xs = bytesToHex ys \<longleftrightarrow> xs = ys"
  using concat_hexByte_inj [of xs ys] by (auto simp: bytesToHex_def)

section \<open>Facts about the functions\<close>

lemma parseLoaderStructure_short:
  "length bs < 88 \<Longrightarrow> parseLoaderStructure bs = Inr None"
  by (simp add: parseLoaderStructure_def LOADER_INSTRUCTIONS_LENGTH_def BLOB_ID_LENGTH_def
        SECTION_LENGTH_SIZE_def)

lemma nth_length_field:
  assumes "88 \<le> length bs" and "j < 8"
  shows "take 8 (drop 80 bs) ! j = bs ! (80 + j)"
proof -
  have "take 8 (drop 80 bs) ! j = drop 80 bs ! j" using assms(2) by simp
  also have "\<dots> = bs ! (80 + j)" using assms by (intro nth_drop) simp
  finally show ?thesis .
qed

lemma parseLoaderStructure_long:
  assumes "88 \<le> length bs"
  shows "parseLoaderStructure bs =
     Inr (Some \<lparr>instructions = take 48 bs, blobId = take 32 (drop 48 bs),
                sectionLength = (\<Sum>i<8. uint (bs ! (80 + i)) * 256 ^ (7 - i)),
                configurables = drop 88 bs\<rparr>)"
proof -
  let ?lb = "take 8 (drop 80 bs)"
  let ?f = "\<lambda>acc b i. case bigint_pow 256 (7 - int i) of
                          Inl e \<Rightarrow> Inl e
                        | Inr p \<Rightarrow> Inr (acc + uint (b::byte) * p)"
  have len: "length ?lb = 8" using assms by simp
  have "reduce ?f ?lb 0 = Inr (\<Sum>j<8. uint (?lb ! j) * 256 ^ (7 - j))"
    unfolding reduce_def using reduce_from_big_endian [of 0 ?lb 0] len by simp
  also have "(\<Sum>j<8. uint (?lb ! j) * 256 ^ (7 - j)) = (\<Sum>i<8. uint (bs ! (80 + i)) * 256 ^ (7 - i))"
    by (rule sum.cong) (simp_all only: nth_length_field [OF assms] lessThan_iff)
  finally have r: "reduce ?f ?lb 0 = Inr (\<Sum>i<8. uint (bs ! (80 + i)) * 256 ^ (7 - i))" .
  have s1: "slice_list bs 0 (Some 48) = take 48 bs"
    using slice_list_nat_nat [of bs 0 48] by simp
  have s2: "slice_list bs 48 (Some 80) = take 32 (drop 48 bs)"
    using slice_list_nat_nat [of bs 48 80] by simp
  have s3: "slice_list bs 80 (Some 88) = take 8 (drop 80 bs)"
    using slice_list_nat_nat [of bs 80 88] by simp
  have s4: "slice_list bs 88 None = drop 88 bs"
    using slice_list_nat_end [of bs 88] by simp
  show ?thesis
    using assms
    unfolding parseLoaderStructure_def LOADER_INSTRUCTIONS_LENGTH_def BLOB_ID_LENGTH_def
      SECTION_LENGTH_SIZE_def Let_def
    by (simp add: s1 s2 s3 s4 r del: sum.lessThan_Suc)
qed

lemma readBigUInt64BE_sum:
  assumes "88 \<le> length bs"
  shows "uint (readBigUInt64BE bs 80) = (\<Sum>i<8. uint (bs ! (80 + i)) * 256 ^ (7 - i))"
proof -
  have "length (take 8 (drop 80 bs)) = 8" using assms by simp
  then have "uint (readBigUInt64BE bs 80) = (\<Sum>j<8. uint (take 8 (drop 80 bs) ! j) * 256 ^ (7 - j))"
    unfolding readBigUInt64BE_def by (rule uint_word_rcat_8)
  also have "\<dots> = (\<Sum>i<8. uint (bs ! (80 + i)) * 256 ^ (7 - i))"
    by (rule sum.cong) (simp_all only: nth_length_field [OF assms] lessThan_iff)
  finally show ?thesis .
qed

lemma getConfigurablesSectionOffset_nonempty:
  assumes "abi_configurables a = Some cs" and "cs \<noteq> []"
  shows "getConfigurablesSectionOffset a = Inr (Min (offset ` set cs))"
proof -
  obtain c cs' where cs: "cs = c # cs'" using assms(2) by (cases cs) auto
  show ?thesis
    using assms(1) unfolding getConfigurablesSectionOffset_def cs
    by (simp add: Math_min_eq_Min)
qed

lemma getConfigurablesSectionOffset_empty:
  assumes "abi_configurables a = None \<or> abi_configurables a = Some []" 
  shows "getConfigurablesSectionOffset a = Inl (Error ''No configurables found in ABI'')"
  using assms unfolding getConfigurablesSectionOffset_def by auto

lemma splitPredicateBytecode_nonempty:
  assumes "abi_configurables a = Some cs" and "cs \<noteq> []"
  shows "splitPredicateBytecode bytecode a =
           Inr \<lparr>codeSection = slice_list bytecode 0 (Some (Min (offset ` set cs))),
                configurablesSection = slice_list bytecode (Min (offset ` set cs)) None\<rparr>"
  unfolding splitPredicateBytecode_def
  by (simp add: getConfigurablesSectionOffset_nonempty [OF assms])

lemma calculateBlobId_nonempty:
  assumes "abi_configurables a = Some cs" and "cs \<noteq> []"
  shows "calculateBlobId sha256 bytecode a =
           Inr (sha256 (slice_list bytecode 0 (Some (Min (offset ` set cs)))))"
  unfolding calculateBlobId_def
  by (simp add: splitPredicateBytecode_nonempty [OF assms])

lemma verifyLoaderBlobId_expected:
  assumes "calculateBlobId sha256 fullBytecode fullAbi = Inr expected"
  shows "verifyLoaderBlobId sha256 fullBytecode fullAbi loader =
           Inr (88 \<le> length loader \<and> bytesToHex (take 32 (drop 48 loader)) = expected)"
proof (cases "88 \<le> length loader")
  case True
  then show ?thesis
    unfolding verifyLoaderBlobId_def
    by (simp add: assms parseLoaderStructure_long bytesToHex_def del: sum.lessThan_Suc)
next
  case False
  then have "parseLoaderStructure loader = Inr None"
    by (simp add: parseLoaderStructure_short)
  then show ?thesis
    unfolding verifyLoaderBlobId_def using False by (simp add: assms)
qed

lemma withTopBit_bits:
  "withTopBit b parity = (if parity then b OR 2 ^ 7 else b AND mask 7)"
  by (simp add: withTopBit_def mask_eq_exp_minus_1)

lemma bit_top_byte: "bit (2 ^ 7 :: byte) n \<longleftrightarrow> n = 7"
  by (simp only: bit_exp_iff) (auto simp: possible_bit_word)

lemma bit_low_byte: "bit (mask 7 :: byte) n \<longleftrightarrow> n < 7"
  by (simp only: bit_mask_iff) (auto simp: possible_bit_word)

lemma withTopBit_top: "bit (withTopBit b parity) 7 = parity"
  by (simp only: withTopBit_bits bit_or_iff bit_and_iff bit_top_byte bit_low_byte if_distrib [of "\<lambda>w. bit w 7"])
     simp

lemma withTopBit_rest: "n < 7 \<Longrightarrow> bit (withTopBit b parity) n = bit b n"
  by (simp only: withTopBit_bits bit_or_iff bit_and_iff bit_top_byte bit_low_byte if_distrib [of "\<lambda>w. bit w n"])
     simp

section \<open>The loader parser\<close>

text \<open>
  Claim C4. A byte sequence shorter than 88 bytes makes \<open>parseLoaderStructure\<close> return
  \<open>null\<close> (the value \<open>Inr None\<close>, not a thrown error); a byte sequence of 88 bytes or
  more makes it return a \<open>LoaderComponents\<close> object, never \<open>null\<close> and never an error:
  in particular the \<open>BigInt\<close> power inside the length decoding is never given a negative
  exponent.
\<close>
theorem parseLoaderStructure_null_iff_short:
  "(length bs < 88 \<longrightarrow> parseLoaderStructure bs = Inr None) \<and>
   (88 \<le> length bs \<longrightarrow> (\<exists>lc. parseLoaderStructure bs = Inr (Some lc)))"
  using parseLoaderStructure_short [of bs] parseLoaderStructure_long [of bs] by auto

theorem parseLoaderStructure_null_iff_short_witness:
  "parseLoaderStructure (replicate 10 0) = Inr None \<and>
   (\<exists>lc. parseLoaderStructure (replicate 88 0) = Inr (Some lc))"
  using parseLoaderStructure_null_iff_short [of "replicate 10 0"]
        parseLoaderStructure_null_iff_short [of "replicate 88 0"]
  by simp

text \<open>
  Claim C5. On a loader of at least 88 bytes the parse is positional: \<open>instructions\<close> is
  bytes 0 to 47, \<open>blobId\<close> is bytes 48 to 79, and \<open>sectionLength\<close> is the sum of
  \<open>byte[80+i] * 256^(7-i)\<close> for \<open>i\<close> from 0 to 7, which is the value of the direct
  64-bit big-endian read \<open>readBigUInt64BE\<close> at offset 80. Hence a loader assembled from 48
  instruction bytes, a 32-byte blob id, 8 length bytes and any configurables parses to a
  \<open>blobId\<close> whose hex encoding is that of the blob id it was built from.
\<close>
theorem parseLoaderStructure_positional:
  "(88 \<le> length bs \<longrightarrow>
      (\<exists>lc. parseLoaderStructure bs = Inr (Some lc) \<and>
            instructions lc = take 48 bs \<and>
            blobId lc = take 32 (drop 48 bs) \<and>
            sectionLength lc = (\<Sum>i<8. uint (bs ! (80 + i)) * 256 ^ (7 - i)) \<and>
            sectionLength lc = uint (readBigUInt64BE bs 80))) \<and>
   (length ins = 48 \<and> length bid = 32 \<and> length len = 8 \<longrightarrow>
      (\<exists>lc. parseLoaderStructure (ins @ bid @ len @ cfg) = Inr (Some lc) \<and>
            blobId lc = bid \<and> bytesToHex (blobId lc) = bytesToHex bid))"
proof (intro conjI impI)
  assume "88 \<le> length bs"
  then show "\<exists>lc. parseLoaderStructure bs = Inr (Some lc) \<and>
            instructions lc = take 48 bs \<and>
            blobId lc = take 32 (drop 48 bs) \<and>
            sectionLength lc = (\<Sum>i<8. uint (bs ! (80 + i)) * 256 ^ (7 - i)) \<and>
            sectionLength lc = uint (readBigUInt64BE bs 80)"
    by (simp add: parseLoaderStructure_long readBigUInt64BE_sum del: sum.lessThan_Suc)
next
  assume l: "length ins = 48 \<and> length bid = 32 \<and> length len = 8"
  then have "88 \<le> length (ins @ bid @ len @ cfg)" by simp
  from parseLoaderStructure_long [OF this] l
  show "\<exists>lc. parseLoaderStructure (ins @ bid @ len @ cfg) = Inr (Some lc) \<and>
            blobId lc = bid \<and> bytesToHex (blobId lc) = bytesToHex bid"
    by simp
qed

theorem parseLoaderStructure_positional_witness:
  "\<exists>lc. parseLoaderStructure (replicate 48 1 @ replicate 32 2 @ replicate 8 3 @ [4, 5]) = Inr (Some lc) \<and>
        blobId lc = replicate 32 2 \<and> bytesToHex (blobId lc) = bytesToHex (replicate 32 2)"
  using parseLoaderStructure_positional [of "[]" "replicate 48 1" "replicate 32 2" "replicate 8 3" "[4, 5]"]
  by simp

text \<open>
  Claim C6 says that the returned \<open>configurables\<close> consists of exactly \<open>sectionLength\<close>
  bytes. The source takes every byte from offset 88 on and never consults the decoded
  length: 88 zero bytes followed by one more byte decode to \<open>sectionLength = 0\<close> with a
  one-byte \<open>configurables\<close>.
\<close>
theorem parseLoaderStructure_configurables_counterexample:
  "parseLoaderStructure (replicate 88 0 @ [7]) =
     Inr (Some \<lparr>instructions = replicate 48 0, blobId = replicate 32 0, sectionLength = 0,
                configurables = [7]\<rparr>) \<and>
   int (length [7 :: byte]) \<noteq> 0"
  by code_simp

text \<open>
  Claim C6, amended. On a loader of at least 88 bytes the returned \<open>configurables\<close> is
  the rest of the input from offset 88 on, \<open>length - 88\<close> bytes whatever \<open>sectionLength\<close>
  says; the two agree exactly when the loader's total length is \<open>88 + sectionLength\<close>.
\<close>

theorem parseLoaderStructure_configurables_rest:
  assumes "88 \<le> length bs"
  shows "\<exists>lc. parseLoaderStructure bs = Inr (Some lc) \<and>
           configurables lc = drop 88 bs \<and>
           length (configurables lc) = length bs - 88 \<and>
           (int (length (configurables lc)) = sectionLength lc
              \<longleftrightarrow> int (length bs) = 88 + sectionLength lc)"
  using assms
  by (auto simp add: parseLoaderStructure_long simp del: sum.lessThan_Suc)

theorem parseLoaderStructure_configurables_rest_witness:
  "\<exists>lc. parseLoaderStructure (replicate 88 0 @ [7]) = Inr (Some lc) \<and>
        configurables lc = [7] \<and> length (configurables lc) = 1"
  using parseLoaderStructure_configurables_rest [of "replicate 88 0 @ [7]"]
  by auto

section \<open>Splitting and the blob identifier\<close>

text \<open>
  Claim C8. \<open>getConfigurablesSectionOffset\<close> throws \<open>Error('No configurables found in ABI')\<close>
  (the empty-layout error) when \<open>abi.configurables\<close> is absent or empty, and for a layout
  with at least one entry it returns the minimum offset among all entries: an offset
  that some entry carries and that no entry undercuts.
\<close>
theorem getConfigurablesSectionOffset_min:
  "(abi_configurables a = None \<or> abi_configurables a = Some [] \<longrightarrow>
      getConfigurablesSectionOffset a = Inl (Error ''No configurables found in ABI'')) \<and>
   (\<forall>cs. abi_configurables a = Some cs \<and> cs \<noteq> [] \<longrightarrow>
      getConfigurablesSectionOffset a = Inr (Min (offset ` set cs)) \<and>
      (\<exists>c \<in> set cs. offset c = Min (offset ` set cs)) \<and>
      (\<forall>c \<in> set cs. Min (offset ` set cs) \<le> offset c))"
proof (intro conjI impI allI)
  assume "abi_configurables a = None \<or> abi_configurables a = Some []"
  then show "getConfigurablesSectionOffset a = Inl (Error ''No configurables found in ABI'')"
    by (rule getConfigurablesSectionOffset_empty)
next
  fix cs assume h: "abi_configurables a = Some cs \<and> cs \<noteq> []"
  then show "getConfigurablesSectionOffset a = Inr (Min (offset ` set cs))"
    by (simp add: getConfigurablesSectionOffset_nonempty)
  have fin: "finite (offset ` set cs)" "offset ` set cs \<noteq> {}" using h by simp_all
  from Min_in [OF fin] show "\<exists>c \<in> set cs. offset c = Min (offset ` set cs)" by auto
  show "\<forall>c \<in> set cs. Min (offset ` set cs) \<le> offset c" using fin by simp
qed

theorem getConfigurablesSectionOffset_min_witness:
  "getConfigurablesSectionOffset \<lparr>abi_configurables = Some []\<rparr> = Inl (Error ''No configurables found in ABI'') \<and>
   getConfigurablesSectionOffset \<lparr>abi_configurables = None\<rparr> = Inl (Error ''No configurables found in ABI'') \<and>
   getConfigurablesSectionOffset
     \<lparr>abi_configurables = Some [\<lparr>name = ''A'', offset = 3936\<rparr>, \<lparr>name = ''B'', offset = 3928\<rparr>,
                                 \<lparr>name = ''C'', offset = 4000\<rparr>]\<rparr> = Inr 3928"
  using getConfigurablesSectionOffset_min [of "\<lparr>abi_configurables = Some []\<rparr>"]
        getConfigurablesSectionOffset_min [of "\<lparr>abi_configurables = None\<rparr>"]
        getConfigurablesSectionOffset_min
          [of "\<lparr>abi_configurables = Some [\<lparr>name = ''A'', offset = 3936\<rparr>, \<lparr>name = ''B'', offset = 3928\<rparr>,
                                 \<lparr>name = ''C'', offset = 4000\<rparr>]\<rparr>"]
  by simp

text \<open>
  Claim C7 says that \<open>splitPredicateBytecode\<close> fails with an out-of-range error when the
  minimum offset exceeds the image's length. The source has no such check: \<open>slice\<close>
  clamps the offset at the length, so a 3-byte image with offset 5 is returned whole as
  the code section.
\<close>
theorem splitPredicateBytecode_offset_counterexample:
  "splitPredicateBytecode [1, 2, 3] \<lparr>abi_configurables = Some [\<lparr>name = ''A'', offset = 5\<rparr>]\<rparr> =
     Inr \<lparr>codeSection = [1, 2, 3], configurablesSection = []\<rparr>"
  by code_simp

text \<open>
  Claim C7, amended. For a non-empty layout whose minimum offset is strictly greater than
  the image's length, \<open>splitPredicateBytecode\<close> returns normally: the code section is
  the whole image and the configurables section is empty.
\<close>
theorem splitPredicateBytecode_beyond_end:
  assumes "abi_configurables a = Some cs" and "cs \<noteq> []"
      and "int (length bytecode) < Min (offset ` set cs)"
  shows "splitPredicateBytecode bytecode a =
           Inr \<lparr>codeSection = bytecode, configurablesSection = []\<rparr>"
proof -
  have "0 \<le> Min (offset ` set cs)" using assms(3) by simp
  then show ?thesis
    using assms(3)
    by (simp add: splitPredicateBytecode_nonempty [OF assms(1,2)] slice_list_prefix slice_list_suffix)
qed

theorem splitPredicateBytecode_beyond_end_witness:
  "splitPredicateBytecode [1, 2, 3] \<lparr>abi_configurables = Some [\<lparr>name = ''A'', offset = 9\<rparr>, \<lparr>name = ''B'', offset = 4\<rparr>]\<rparr> =
     Inr \<lparr>codeSection = [1, 2, 3], configurablesSection = []\<rparr>"
  using splitPredicateBytecode_beyond_end
     [of "\<lparr>abi_configurables = Some [\<lparr>name = ''A'', offset = 9\<rparr>, \<lparr>name = ''B'', offset = 4\<rparr>]\<rparr>"
         "[\<lparr>name = ''A'', offset = 9\<rparr>, \<lparr>name = ''B'', offset = 4\<rparr>]" "[1, 2, 3]"]
  by simp

text \<open>
  Claim C10. For a non-empty layout with a non-negative minimum offset, also one beyond
  the end of the image, \<open>splitPredicateBytecode\<close> returns without error, the code
  section followed by the configurables section is the input image (they are the first
  \<open>offset\<close> bytes and the rest), and when the offset exceeds the image's length the code
  section is the whole image and the configurables section is empty.
\<close>
theorem splitPredicateBytecode_concat:
  assumes "abi_configurables a = Some cs" and "cs \<noteq> []"
      and "0 \<le> Min (offset ` set cs)"
  shows "\<exists>s. splitPredicateBytecode bytecode a = Inr s \<and>
             codeSection s @ configurablesSection s = bytecode \<and>
             codeSection s = take (nat (Min (offset ` set cs))) bytecode \<and>
             configurablesSection s = drop (nat (Min (offset ` set cs))) bytecode \<and>
             (int (length bytecode) < Min (offset ` set cs) \<longrightarrow>
                codeSection s = bytecode \<and> configurablesSection s = [])"
  using assms(3)
  by (simp add: splitPredicateBytecode_nonempty [OF assms(1,2)] slice_list_prefix slice_list_suffix)

theorem splitPredicateBytecode_concat_witness:
  "splitPredicateBytecode [1, 2, 3] \<lparr>abi_configurables = Some [\<lparr>name = ''A'', offset = 2\<rparr>]\<rparr> =
     Inr \<lparr>codeSection = [1, 2], configurablesSection = [3]\<rparr> \<and>
   splitPredicateBytecode [1, 2, 3] \<lparr>abi_configurables = Some [\<lparr>name = ''A'', offset = 7\<rparr>]\<rparr> =
     Inr \<lparr>codeSection = [1, 2, 3], configurablesSection = []\<rparr>"
  using splitPredicateBytecode_concat
     [of "\<lparr>abi_configurables = Some [\<lparr>name = ''A'', offset = 2\<rparr>]\<rparr>" "[\<lparr>name = ''A'', offset = 2\<rparr>]" "[1, 2, 3]"]
    splitPredicateBytecode_concat
     [of "\<lparr>abi_configurables = Some [\<lparr>name = ''A'', offset = 7\<rparr>]\<rparr>" "[\<lparr>name = ''A'', offset = 7\<rparr>]" "[1, 2, 3]"]
  by (auto simp: numeral_2_eq_2)

text \<open>
  Claim C3. For a non-empty layout, \<open>calculateBlobId\<close> depends on the image only through
  its code section: two images whose code sections (as \<open>splitPredicateBytecode\<close>
  returns them) are byte-identical get the same blob id, whatever the hash function.
  For a non-negative minimum offset this is the case whenever the two images agree on
  the bytes below the offset, and in particular for one code section followed by two
  different configurables sections.
\<close>
theorem calculateBlobId_section_independent:
  assumes "abi_configurables a = Some cs" and "cs \<noteq> []"
  shows "(\<forall>s1 s2. splitPredicateBytecode image1 a = Inr s1 \<and> splitPredicateBytecode image2 a = Inr s2 \<and>
             codeSection s1 = codeSection s2 \<longrightarrow>
             calculateBlobId sha256 image1 a = calculateBlobId sha256 image2 a) \<and>
         (0 \<le> Min (offset ` set cs) \<and>
          take (nat (Min (offset ` set cs))) image1 = take (nat (Min (offset ` set cs))) image2 \<longrightarrow>
             calculateBlobId sha256 image1 a = calculateBlobId sha256 image2 a) \<and>
         (int (length code) = Min (offset ` set cs) \<longrightarrow>
             calculateBlobId sha256 (code @ cfg1) a = calculateBlobId sha256 (code @ cfg2) a)"
proof (intro conjI impI allI)
  fix s1 s2
  assume "splitPredicateBytecode image1 a = Inr s1 \<and> splitPredicateBytecode image2 a = Inr s2 \<and>
             codeSection s1 = codeSection s2"
  then show "calculateBlobId sha256 image1 a = calculateBlobId sha256 image2 a"
    by (simp add: calculateBlobId_def)
next
  assume "0 \<le> Min (offset ` set cs) \<and>
          take (nat (Min (offset ` set cs))) image1 = take (nat (Min (offset ` set cs))) image2"
  then show "calculateBlobId sha256 image1 a = calculateBlobId sha256 image2 a"
    by (simp add: calculateBlobId_nonempty [OF assms] slice_list_prefix)
next
  assume l: "int (length code) = Min (offset ` set cs)"
  then have "0 \<le> Min (offset ` set cs)" by (metis of_nat_0_le_iff)
  moreover have "nat (Min (offset ` set cs)) = length code" using l by (metis nat_int)
  ultimately show "calculateBlobId sha256 (code @ cfg1) a = calculateBlobId sha256 (code @ cfg2) a"
    by (simp add: calculateBlobId_nonempty [OF assms] slice_list_prefix)
qed


theorem calculateBlobId_section_independent_witness:
  "calculateBlobId bytesToHex [1, 2, 3] \<lparr>abi_configurables = Some [\<lparr>name = ''A'', offset = 2\<rparr>]\<rparr> =
   calculateBlobId bytesToHex [1, 2, 9, 9] \<lparr>abi_configurables = Some [\<lparr>name = ''A'', offset = 2\<rparr>]\<rparr>"
  using calculateBlobId_section_independent
     [of "\<lparr>abi_configurables = Some [\<lparr>name = ''A'', offset = 2\<rparr>]\<rparr>" "[\<lparr>name = ''A'', offset = 2\<rparr>]"
         "[1, 2, 3]" "[1, 2, 9, 9]" bytesToHex]
  by (simp add: numeral_2_eq_2)

section \<open>The loader verifier\<close>

text \<open>
  Claim C1. For a non-empty layout \<open>verifyLoaderBlobId\<close> always returns a boolean, a
  loader shorter than 88 bytes gives \<open>false\<close>, and, the blob id computed by
  \<open>calculateBlobId\<close> being the hex string of the digest bytes, the result is \<open>true\<close> if and
  only if the loader has at least 88 bytes and its bytes 48 to 79 are equal to the digest.
\<close>
theorem verifyLoaderBlobId_iff_digest:
  assumes "abi_configurables fullAbi = Some cs" and "cs \<noteq> []"
  shows "(\<exists>b. verifyLoaderBlobId sha256 fullBytecode fullAbi loader = Inr b) \<and>
         (length loader < 88 \<longrightarrow>
            verifyLoaderBlobId sha256 fullBytecode fullAbi loader = Inr False) \<and>
         (\<forall>digest. calculateBlobId sha256 fullBytecode fullAbi = Inr (bytesToHex digest) \<longrightarrow>
            verifyLoaderBlobId sha256 fullBytecode fullAbi loader =
              Inr (88 \<le> length loader \<and> take 32 (drop 48 loader) = digest))"
proof -
  let ?e = "sha256 (slice_list fullBytecode 0 (Some (Min (offset ` set cs))))"
  have c: "calculateBlobId sha256 fullBytecode fullAbi = Inr ?e"
    by (rule calculateBlobId_nonempty [OF assms])
  note v = verifyLoaderBlobId_expected [OF c, of loader]
  show ?thesis
  proof (intro conjI impI allI)
    show "\<exists>b. verifyLoaderBlobId sha256 fullBytecode fullAbi loader = Inr b"
      using v by blast
  next
    assume "length loader < 88"
    then show "verifyLoaderBlobId sha256 fullBytecode fullAbi loader = Inr False"
      using v by simp
  next
    fix digest
    assume "calculateBlobId sha256 fullBytecode fullAbi = Inr (bytesToHex digest)"
    then have "?e = bytesToHex digest" using c by simp
    then show "verifyLoaderBlobId sha256 fullBytecode fullAbi loader =
              Inr (88 \<le> length loader \<and> take 32 (drop 48 loader) = digest)"
      using v by (simp add: bytesToHex_inj)
  qed
qed

theorem verifyLoaderBlobId_iff_digest_witness:
  "verifyLoaderBlobId (\<lambda>code. bytesToHex (replicate 32 (word_of_nat (length code)))) [1, 2, 3]
     \<lparr>abi_configurables = Some [\<lparr>name = ''A'', offset = 2\<rparr>]\<rparr>
     (replicate 48 0 @ replicate 32 2 @ replicate 8 0) = Inr True \<and>
   verifyLoaderBlobId (\<lambda>code. bytesToHex (replicate 32 (word_of_nat (length code)))) [1, 2, 3]
     \<lparr>abi_configurables = Some [\<lparr>name = ''A'', offset = 2\<rparr>]\<rparr>
     (replicate 48 0 @ replicate 32 2) = Inr False"
proof -
  let ?sha = "\<lambda>code :: bytes. bytesToHex (replicate 32 (word_of_nat (length code)))"
  let ?abi = "\<lparr>abi_configurables = Some [\<lparr>name = ''A'', offset = 2\<rparr>]\<rparr>"
  have c: "calculateBlobId ?sha [1, 2, 3] ?abi = Inr (bytesToHex (replicate 32 2))"
    by (simp add: calculateBlobId_nonempty [of ?abi "[\<lparr>name = ''A'', offset = 2\<rparr>]"]
          slice_list_prefix numeral_2_eq_2)
  show ?thesis
    using verifyLoaderBlobId_iff_digest
            [of ?abi "[\<lparr>name = ''A'', offset = 2\<rparr>]" ?sha "[1, 2, 3]"
                "replicate 48 0 @ replicate 32 2 @ replicate 8 0"]
          verifyLoaderBlobId_iff_digest
            [of ?abi "[\<lparr>name = ''A'', offset = 2\<rparr>]" ?sha "[1, 2, 3]"
                "replicate 48 0 @ replicate 32 2"]
          c
    by simp
qed

text \<open>
  Claim C2. If \<open>verifyLoaderBlobId\<close> returns \<open>true\<close> on a loader, then replacing any one
  of the loader's bytes 48 to 79 by a different value makes it return \<open>false\<close>, for the
  same full image and layout.
\<close>
theorem verifyLoaderBlobId_tamper:
  assumes "verifyLoaderBlobId sha256 fullBytecode fullAbi loader = Inr True"
      and "48 \<le> i" and "i < 80" and "v \<noteq> loader ! i"
  shows "verifyLoaderBlobId sha256 fullBytecode fullAbi (loader[i := v]) = Inr False"
proof -
  obtain expected where c: "calculateBlobId sha256 fullBytecode fullAbi = Inr expected"
    using assms(1) unfolding verifyLoaderBlobId_def by (auto split: sum.splits)
  from assms(1) have ok: "88 \<le> length loader" "bytesToHex (take 32 (drop 48 loader)) = expected"
    by (simp_all add: verifyLoaderBlobId_expected [OF c])
  have i: "i - 48 < 32" "48 + (i - 48) = i" "i < length loader" using assms(2,3) ok(1) by simp_all
  have "take 32 (drop 48 (loader[i := v])) ! (i - 48) = v"
    using i by simp
  moreover have "take 32 (drop 48 loader) ! (i - 48) = loader ! i"
    using i by simp
  ultimately have "take 32 (drop 48 (loader[i := v])) \<noteq> take 32 (drop 48 loader)"
    using assms(4) by metis
  then have "bytesToHex (take 32 (drop 48 (loader[i := v]))) \<noteq>
             bytesToHex (take 32 (drop 48 loader))"
    by (simp add: bytesToHex_inj)
  then have "bytesToHex (take 32 (drop 48 (loader[i := v]))) \<noteq> expected"
    by (simp add: ok(2))
  then show ?thesis
    by (simp add: verifyLoaderBlobId_expected [OF c])
qed

theorem verifyLoaderBlobId_tamper_witness:
  "verifyLoaderBlobId (\<lambda>code. bytesToHex (replicate 32 (word_of_nat (length code)))) [1, 2, 3]
     \<lparr>abi_configurables = Some [\<lparr>name = ''A'', offset = 2\<rparr>]\<rparr>
     ((replicate 48 0 @ replicate 32 2 @ replicate 8 0)[50 := 255]) = Inr False"
proof -
  let ?sha = "\<lambda>code :: bytes. bytesToHex (replicate 32 (word_of_nat (length code)))"
  let ?abi = "\<lparr>abi_configurables = Some [\<lparr>name = ''A'', offset = 2\<rparr>]\<rparr>"
  let ?loader = "replicate 48 0 @ replicate 32 2 @ replicate 8 (0 :: byte)"
  have c: "calculateBlobId ?sha [1, 2, 3] ?abi = Inr (bytesToHex (replicate 32 2))"
    by (simp add: calculateBlobId_nonempty [of ?abi "[\<lparr>name = ''A'', offset = 2\<rparr>]"]
          slice_list_prefix numeral_2_eq_2)
  have ok: "verifyLoaderBlobId ?sha [1, 2, 3] ?abi ?loader = Inr True"
    by (simp add: verifyLoaderBlobId_expected [OF c])
  have ne: "(255 :: byte) \<noteq> ?loader ! 50"
    by (simp add: nth_append)
  show ?thesis
    by (rule verifyLoaderBlobId_tamper [OF ok _ _ ne]) simp_all
qed

section \<open>The compact signature\<close>

text \<open>
  Claim C9. On a 65-byte signature \<open>toCompact\<close> returns 64 bytes: the first 32 are \<open>r\<close>,
  the top bit of byte 32 is the normalized parity of \<open>v\<close>, the other seven bits of byte 32
  and bytes 33 to 63 are those of \<open>s\<close>. On any other length it fails with
  \<open>MalformedSignature\<close>. The parity of 27 and 0 is 0, that of 28 and 1 is 1.
\<close>
theorem toCompact_shape:
  "(length signature = 65 \<longrightarrow>
      (\<exists>out. toCompact signature = Inr out \<and>
             length out = 64 \<and>
             take 32 out = take 32 signature \<and>
             bit (out ! 32) 7 = normalizeParity (signature ! 64) \<and>
             (\<forall>n<7. bit (out ! 32) n = bit (signature ! 32) n) \<and>
             drop 33 out = take 31 (drop 33 signature))) \<and>
   (length signature \<noteq> 65 \<longrightarrow> toCompact signature = Inl MalformedSignature) \<and>
   \<not> normalizeParity 27 \<and> normalizeParity 28 \<and> \<not> normalizeParity 0 \<and> normalizeParity 1"
proof (intro conjI impI)
  assume l: "length signature = 65"
  let ?s = "take 32 (drop 32 signature)"
  let ?out = "take 32 signature @ withTopBit (hd ?s) (normalizeParity (signature ! 64)) # tl ?s"
  have out: "toCompact signature = Inr ?out"
    using l by (simp add: toCompact_def Let_def)
  have hd: "hd ?s = signature ! 32"
    using l by (simp add: hd_conv_nth hd_drop_conv_nth)
  have "tl (drop 32 signature) = drop (Suc 32) signature"
    by (simp only: drop_Suc tl_drop)
  then have tl: "tl ?s = take 31 (drop 33 signature)"
    by (simp add: tl_take)
  have n32: "?out ! 32 = withTopBit (signature ! 32) (normalizeParity (signature ! 64))"
    using l by (simp add: nth_append hd)
  have "length ?out = 64" using l by simp
  moreover have "take 32 ?out = take 32 signature" using l by simp
  moreover have "bit (?out ! 32) 7 = normalizeParity (signature ! 64)"
    by (simp only: n32 withTopBit_top)
  moreover have "\<forall>n<7. bit (?out ! 32) n = bit (signature ! 32) n"
    by (simp only: n32) (simp add: withTopBit_rest)
  moreover have "drop 33 ?out = take 31 (drop 33 signature)"
    using l by (simp add: tl)
  ultimately show "\<exists>out. toCompact signature = Inr out \<and>
             length out = 64 \<and>
             take 32 out = take 32 signature \<and>
             bit (out ! 32) 7 = normalizeParity (signature ! 64) \<and>
             (\<forall>n<7. bit (out ! 32) n = bit (signature ! 32) n) \<and>
             drop 33 out = take 31 (drop 33 signature)"
    using out by blast
next
  assume "length signature \<noteq> 65"
  then show "toCompact signature = Inl MalformedSignature" by (simp add: toCompact_def)
qed (simp_all add: normalizeParity_def)

theorem toCompact_shape_witness:
  "(\<exists>out. toCompact (replicate 32 1 @ replicate 32 2 @ [28]) = Inr out \<and> length out = 64 \<and>
          bit (out ! 32) 7) \<and>
   toCompact (replicate 64 1) = Inl MalformedSignature"
  using toCompact_shape [of "replicate 32 1 @ replicate 32 2 @ [28]"]
        toCompact_shape [of "replicate 64 1"]
  by (auto simp: nth_append)

end
